theory Spec2Isabelle
  imports Complex_Main "HOL-Library.Product_Lexorder" "HOL-Library.AList"
begin

section \<open>Heuristic column mapping of backend/ai_assistant.py\<close>

text \<open>
  This theory embeds the column-mapping functions of \<^verbatim>\<open>backend/ai_assistant.py\<close>
  (\<^verbatim>\<open>suggest_column_mapping\<close>, \<^verbatim>\<open>_standard_fields\<close>, \<^verbatim>\<open>_fallback_mapping\<close>,
  \<^verbatim>\<open>_best_match\<close>, \<^verbatim>\<open>_infer_content\<close>) together with the parts of the Python
  standard library they call: \<^verbatim>\<open>str.lower\<close>, \<^verbatim>\<open>re.sub\<close> and \<^verbatim>\<open>re.search\<close> on
  the patterns that occur in the source, and \<^verbatim>\<open>difflib.SequenceMatcher.ratio\<close>.
  A leading underscore is not part of an Isabelle name, so \<^verbatim>\<open>_best_match\<close> is
  \<open>best_match\<close> here, and so on.
\<close>

subsection \<open>Strings\<close>

text \<open>
  A Python \<^verbatim>\<open>str\<close> is modelled as a \<^typ>\<open>string\<close> whose characters are the code points
  0 to 255 (Latin-1); column names and cell values with code points beyond that range are
  outside the model. On this range \<^verbatim>\<open>str.lower\<close> maps one character to one character:
  it adds 32 to \<^verbatim>\<open>A-Z\<close> (65 to 90) and to the accented capitals 192 to 222 except the
  multiplication sign 215, and leaves every other character alone.

  \<open>clean_name\<close> is the expression \<^verbatim>\<open>re.sub(r'[^a-z0-9]', '', s.lower())\<close> that
  \<^verbatim>\<open>_best_match\<close> applies to the column name and to every field name.
\<close>

definition ord :: "char \<Rightarrow> nat" where
  "ord c = of_char c"

definition chr :: "nat \<Rightarrow> char" where
  "chr n = char_of n"

definition lower_char :: "char \<Rightarrow> char" where
  "lower_char c =
     (let n = ord c
      in if (65 \<le> n \<and> n \<le> 90) \<or> (192 \<le> n \<and> n \<le> 222 \<and> n \<noteq> 215)
         then chr (n + 32) else c)"

definition lower :: "string \<Rightarrow> string" where
  "lower s = map lower_char s"

definition is_az09 :: "char \<Rightarrow> bool" where
  "is_az09 c = (let n = ord c in (97 \<le> n \<and> n \<le> 122) \<or> (48 \<le> n \<and> n \<le> 57))"

definition clean_name :: "string \<Rightarrow> string" where
  "clean_name s = filter is_az09 (lower s)"

subsection \<open>The similarity ratio of difflib\<close>

text \<open>
  \<^verbatim>\<open>SequenceMatcher(None, a, b)\<close> is created with no junk predicate and with the
  default \<^verbatim>\<open>autojunk=True\<close>. Its method \<^verbatim>\<open>__chain_b\<close> records, for every element
  of \<open>b\<close>, the ascending list of its positions (\<open>chain_loop\<close>), and, when \<open>b\<close> has 200 or
  more elements, forgets the elements that occur more than \<open>n div 100 + 1\<close> times. The
  set of junk elements stays empty.
\<close>

type_synonym 'a b2j = "'a \<rightharpoonup> nat list"

fun chain_loop :: "'a list \<Rightarrow> nat \<Rightarrow> 'a b2j \<Rightarrow> 'a b2j" where
  "chain_loop [] i b2j = b2j"
| "chain_loop (elt # b) i b2j =
     chain_loop b (Suc i)
       (b2j(elt \<mapsto> (case b2j elt of None \<Rightarrow> [] | Some indices \<Rightarrow> indices) @ [i]))"

definition chain_b :: "'a list \<Rightarrow> 'a b2j" where
  "chain_b b =
     (let b2j = chain_loop b 0 Map.empty; n = length b
      in if n \<ge> 200
         then (let ntest = n div 100 + 1
               in (\<lambda>elt. case b2j elt of None \<Rightarrow> None
                     | Some idxs \<Rightarrow> if length idxs > ntest then None else Some idxs))
         else b2j)"

text \<open>
  \<^verbatim>\<open>find_longest_match(alo, ahi, blo, bhi)\<close>. \<open>flm_inner\<close> is the loop over the positions
  \<open>j\<close> of \<open>a[i]\<close> in \<open>b\<close> (\<^verbatim>\<open>continue\<close> below \<open>blo\<close>, \<^verbatim>\<open>break\<close> from \<open>bhi\<close> on),
  \<open>flm_outer\<close> the loop over \<open>i\<close> in \<^verbatim>\<open>range(alo, ahi)\<close>. The dictionaries
  \<^verbatim>\<open>j2len\<close> and \<^verbatim>\<open>newj2len\<close> are maps; \<^verbatim>\<open>j2len.get(j-1, 0)\<close> at \<open>j = 0\<close> asks for
  the key \<open>-1\<close>, which is never stored, and so gives 0. The index \<^verbatim>\<open>i-k+1\<close> is written
  \<open>i + 1 - k\<close>: \<open>k\<close> never exceeds \<open>i + 1 - alo\<close> (lemma \<open>flm_inner_bounds\<close>), so the
  subtraction on natural numbers is exact. \<open>extend_left\<close> and \<open>extend_right\<close> are the two
  \<^verbatim>\<open>while\<close> loops that extend the match by equal elements that are not junk; the two
  later loops of the source extend by junk elements only and never run, because no element
  is junk. All list accesses stay in range, since \<open>get_matching_blocks\<close> starts from the
  whole of \<open>a\<close> and \<open>b\<close> and only ever narrows the ranges (lemma
  \<open>find_longest_match_in_range\<close>).
\<close>

type_synonym match = "nat \<times> nat \<times> nat"

fun flm_inner ::
  "nat list \<Rightarrow> nat \<Rightarrow> nat \<Rightarrow> nat \<Rightarrow> (nat \<rightharpoonup> nat) \<Rightarrow> (nat \<rightharpoonup> nat) \<Rightarrow> match
     \<Rightarrow> (nat \<rightharpoonup> nat) \<times> match" where
  "flm_inner [] i blo bhi j2len newj2len best = (newj2len, best)"
| "flm_inner (j # js) i blo bhi j2len newj2len (besti, bestj, bestsize) =
     (if j < blo then flm_inner js i blo bhi j2len newj2len (besti, bestj, bestsize)
      else if j \<ge> bhi then (newj2len, (besti, bestj, bestsize))
      else
        (let k = (if j = 0 then 0 else case j2len (j - 1) of None \<Rightarrow> 0 | Some v \<Rightarrow> v) + 1;
             newj2len' = newj2len(j \<mapsto> k)
         in if k > bestsize
            then flm_inner js i blo bhi j2len newj2len' (i + 1 - k, j + 1 - k, k)
            else flm_inner js i blo bhi j2len newj2len' (besti, bestj, bestsize)))"

fun flm_outer ::
  "'a list \<Rightarrow> 'a b2j \<Rightarrow> nat list \<Rightarrow> nat \<Rightarrow> nat \<Rightarrow> (nat \<rightharpoonup> nat) \<Rightarrow> match \<Rightarrow> match" where
  "flm_outer a b2j [] blo bhi j2len best = best"
| "flm_outer a b2j (i # is) blo bhi j2len best =
     (let js = (case b2j (a ! i) of None \<Rightarrow> [] | Some idxs \<Rightarrow> idxs);
          (newj2len, best') = flm_inner js i blo bhi j2len Map.empty best
      in flm_outer a b2j is blo bhi newj2len best')"

function extend_left :: "'a list \<Rightarrow> 'a list \<Rightarrow> nat \<Rightarrow> nat \<Rightarrow> match \<Rightarrow> match" where
  "extend_left a b alo blo (besti, bestj, bestsize) =
     (if besti > alo \<and> bestj > blo \<and> a ! (besti - 1) = b ! (bestj - 1)
      then extend_left a b alo blo (besti - 1, bestj - 1, bestsize + 1)
      else (besti, bestj, bestsize))"
  by pat_completeness auto
termination
  by (relation "measure (\<lambda>(a, b, alo, blo, besti, bestj, bestsize). besti)") auto

function extend_right :: "'a list \<Rightarrow> 'a list \<Rightarrow> nat \<Rightarrow> nat \<Rightarrow> match \<Rightarrow> match" where
  "extend_right a b ahi bhi (besti, bestj, bestsize) =
     (if besti + bestsize < ahi \<and> bestj + bestsize < bhi
         \<and> a ! (besti + bestsize) = b ! (bestj + bestsize)
      then extend_right a b ahi bhi (besti, bestj, bestsize + 1)
      else (besti, bestj, bestsize))"
  by pat_completeness auto
termination
  by (relation "measure (\<lambda>(a, b, ahi, bhi, besti, bestj, bestsize). ahi - (besti + bestsize))") auto

definition find_longest_match ::
  "'a list \<Rightarrow> 'a list \<Rightarrow> 'a b2j \<Rightarrow> nat \<Rightarrow> nat \<Rightarrow> nat \<Rightarrow> nat \<Rightarrow> match" where
  "find_longest_match a b b2j alo ahi blo bhi =
     extend_right a b ahi bhi
       (extend_left a b alo blo
          (flm_outer a b2j [alo..<ahi] blo bhi Map.empty (alo, blo, 0)))"


text \<open>
  The match returned by \<open>find_longest_match\<close> lies inside the range of \<open>a\<close> it was asked
  about. This is what makes the work list of \<open>get_matching_blocks\<close> shrink.
\<close>

lemma flm_inner_bounds:
  assumes "flm_inner js i blo bhi j2len newj2len (besti, bestj, bestsize) = (n', bi', bj', bs')"
    and "alo \<le> i"
    and "\<forall>j v. j2len j = Some v \<longrightarrow> v + alo \<le> i"
    and "\<forall>j v. newj2len j = Some v \<longrightarrow> v + alo \<le> Suc i"
    and "alo \<le> besti" and "besti + bestsize \<le> Suc i"
  shows "(\<forall>j v. n' j = Some v \<longrightarrow> v + alo \<le> Suc i) \<and> alo \<le> bi' \<and> bi' + bs' \<le> Suc i"
  using assms
proof (induction js arbitrary: newj2len besti bestj bestsize)
  case Nil
  then show ?case by simp
next
  case (Cons j js)
  let ?k = "(if j = 0 then 0 else case j2len (j - 1) of None \<Rightarrow> 0 | Some v \<Rightarrow> v) + 1"
  have k: "?k + alo \<le> Suc i"
    using Cons.prems(2,3) by (auto split: option.splits)
  show ?case
  proof (cases "j < blo")
    case True
    with Cons show ?thesis by simp
  next
    case lo: False
    show ?thesis
    proof (cases "j \<ge> bhi")
      case True
      with lo Cons.prems show ?thesis by simp
    next
      case hi: False
      have new: "\<forall>j' v. (newj2len(j \<mapsto> ?k)) j' = Some v \<longrightarrow> v + alo \<le> Suc i"
        using k Cons.prems(4) by auto
      show ?thesis
      proof (cases "?k > bestsize")
        case True
        have "flm_inner js i blo bhi j2len (newj2len(j \<mapsto> ?k)) (i + 1 - ?k, j + 1 - ?k, ?k)
                = (n', bi', bj', bs')"
          using Cons.prems(1) lo hi True by (simp add: Let_def)
        moreover have "alo \<le> i + 1 - ?k" using k by arith
        moreover have "i + 1 - ?k + ?k \<le> Suc i" using k by arith
        ultimately show ?thesis
          using Cons.IH Cons.prems(2,3) new by blast
      next
        case False
        have "flm_inner js i blo bhi j2len (newj2len(j \<mapsto> ?k)) (besti, bestj, bestsize)
                = (n', bi', bj', bs')"
          using Cons.prems(1) lo hi False by (simp add: Let_def)
        then show ?thesis
          using Cons.IH Cons.prems(2,3,5,6) new by blast
      qed
    qed
  qed
qed

lemma flm_outer_bounds:
  assumes "flm_outer a b2j [i0..<ahi] blo bhi j2len (besti, bestj, bestsize) = (bi', bj', bs')"
    and "alo \<le> i0"
    and "\<forall>j v. j2len j = Some v \<longrightarrow> v + alo \<le> i0"
    and "alo \<le> besti" and "besti + bestsize \<le> i0"
  shows "alo \<le> bi' \<and> bi' + bs' \<le> max i0 ahi"
  using assms
proof (induction "ahi - i0" arbitrary: i0 j2len besti bestj bestsize)
  case 0
  then show ?case by simp
next
  case (Suc n)
  then have lt: "i0 < ahi" by arith
  then have upt: "[i0..<ahi] = i0 # [Suc i0..<ahi]"
    by (simp add: upt_conv_Cons)
  obtain n' ci cj cs where
    inner: "flm_inner (case b2j (a ! i0) of None \<Rightarrow> [] | Some idxs \<Rightarrow> idxs) i0 blo bhi j2len
              Map.empty (besti, bestj, bestsize) = (n', ci, cj, cs)"
    by (metis prod_cases4)
  have step: "(\<forall>j v. n' j = Some v \<longrightarrow> v + alo \<le> Suc i0) \<and> alo \<le> ci \<and> ci + cs \<le> Suc i0"
    using flm_inner_bounds [OF inner Suc.prems(2) Suc.prems(3) _ Suc.prems(4)] Suc.prems(5)
    by simp
  have rest: "flm_outer a b2j [Suc i0..<ahi] blo bhi n' (ci, cj, cs) = (bi', bj', bs')"
    using Suc.prems(1) inner upt by simp
  have "n = ahi - Suc i0" using Suc.hyps(2) by arith
  from Suc.hyps(1) [OF this rest] step Suc.prems(2)
  have "alo \<le> bi' \<and> bi' + bs' \<le> max (Suc i0) ahi" by simp
  with lt show ?case by simp
qed

lemma extend_left_bounds:
  "extend_left a b alo blo (besti, bestj, bestsize) = (bi', bj', bs')
    \<Longrightarrow> alo \<le> besti \<Longrightarrow> alo \<le> bi' \<and> bi' + bs' = besti + bestsize"
proof (induction a b alo blo "(besti, bestj, bestsize)" arbitrary: besti bestj bestsize
       rule: extend_left.induct)
  case (1 a b alo blo besti bestj bestsize)
  show ?case
  proof (cases "besti > alo \<and> bestj > blo \<and> a ! (besti - 1) = b ! (bestj - 1)")
    case True
    then have "extend_left a b alo blo (besti - 1, bestj - 1, bestsize + 1) = (bi', bj', bs')"
      using "1.prems"(1) by simp
    from "1.hyps" [OF True this] True show ?thesis by auto
  next
    case False
    then show ?thesis using "1.prems" by auto
  qed
qed

lemma extend_right_bounds:
  "extend_right a b ahi bhi (besti, bestj, bestsize) = (bi', bj', bs')
    \<Longrightarrow> bi' = besti \<and> bi' + bs' \<le> max (besti + bestsize) ahi"
proof (induction a b ahi bhi "(besti, bestj, bestsize)" arbitrary: besti bestj bestsize
       rule: extend_right.induct)
  case (1 a b ahi bhi besti bestj bestsize)
  show ?case
  proof (cases "besti + bestsize < ahi \<and> bestj + bestsize < bhi
                 \<and> a ! (besti + bestsize) = b ! (bestj + bestsize)")
    case True
    then have "extend_right a b ahi bhi (besti, bestj, bestsize + 1) = (bi', bj', bs')"
      using "1.prems"(1) by simp
    from "1.hyps" [OF True this] True show ?thesis by simp
  next
    case False
    then show ?thesis using "1.prems" by auto
  qed
qed

declare extend_left.simps [simp del] extend_right.simps [simp del]

lemma find_longest_match_bounds:
  assumes "find_longest_match a b b2j alo ahi blo bhi = (i, j, k)"
  shows "alo \<le> i \<and> i + k \<le> max alo ahi"
proof -
  obtain oi oj ok where o: "flm_outer a b2j [alo..<ahi] blo bhi Map.empty (alo, blo, 0) = (oi, oj, ok)"
    by (metis prod_cases3)
  obtain li lj lk where l: "extend_left a b alo blo (oi, oj, ok) = (li, lj, lk)"
    by (metis prod_cases3)
  have r: "extend_right a b ahi bhi (li, lj, lk) = (i, j, k)"
    using assms o l by (simp add: find_longest_match_def)
  have 1: "alo \<le> oi \<and> oi + ok \<le> max alo ahi"
    using flm_outer_bounds [OF o, of alo] by simp
  have 2: "alo \<le> li \<and> li + lk = oi + ok"
    using extend_left_bounds [OF l] 1 by simp
  have 3: "i = li \<and> i + k \<le> max (li + lk) ahi"
    using extend_right_bounds [OF r] by simp
  from 1 2 3 show ?thesis by auto
qed

text \<open>
  \<^verbatim>\<open>get_matching_blocks\<close>. The source keeps a list \<^verbatim>\<open>queue\<close> of ranges, pops the last
  one, and appends the ranges to the left and to the right of the match found. In
  \<open>blocks_loop\<close> the head of the list is the element popped next, so the range appended
  last comes first. Every step removes one range and adds ranges of smaller total width,
  hence the loop ends (\<open>queue_weight\<close>).
\<close>

type_synonym range4 = "nat \<times> nat \<times> nat \<times> nat"

definition queue_weight :: "range4 list \<Rightarrow> nat" where
  "queue_weight q = sum_list (map (\<lambda>(alo, ahi, blo, bhi). 2 * (ahi - alo) + 1) q)"

function blocks_loop ::
  "'a list \<Rightarrow> 'a list \<Rightarrow> 'a b2j \<Rightarrow> range4 list \<Rightarrow> match list \<Rightarrow> match list" where
  "blocks_loop a b b2j [] matching_blocks = matching_blocks"
| "blocks_loop a b b2j ((alo, ahi, blo, bhi) # queue) matching_blocks =
     (case find_longest_match a b b2j alo ahi blo bhi of (i, j, k) \<Rightarrow>
        if k \<noteq> 0
        then blocks_loop a b b2j
               ((if i + k < ahi \<and> j + k < bhi then [(i + k, ahi, j + k, bhi)] else [])
                 @ (if alo < i \<and> blo < j then [(alo, i, blo, j)] else []) @ queue)
               (matching_blocks @ [(i, j, k)])
        else blocks_loop a b b2j queue matching_blocks)"
  by pat_completeness auto
termination
proof (relation "measure (\<lambda>(a, b, b2j, queue, matching_blocks). queue_weight queue)")
  show "wf (measure (\<lambda>(a, b, b2j, queue, matching_blocks). queue_weight queue))" by simp
next
  fix a b :: "'a list" and b2j :: "'a b2j" and alo ahi blo bhi queue
    and matching_blocks :: "match list" and i y j k
  assume "(i, y) = find_longest_match a b b2j alo ahi blo bhi" "(j, k) = y" "k \<noteq> 0"
  then have "find_longest_match a b b2j alo ahi blo bhi = (i, j, k)" by simp
  from find_longest_match_bounds [OF this] \<open>k \<noteq> 0\<close>
  have "alo \<le> i" "i + k \<le> ahi" by (auto simp: max_def split: if_splits)
  then show "((a, b, b2j,
        (if i + k < ahi \<and> j + k < bhi then [(i + k, ahi, j + k, bhi)] else [])
          @ (if alo < i \<and> blo < j then [(alo, i, blo, j)] else []) @ queue,
        matching_blocks @ [(i, j, k)]),
       (a, b, b2j, (alo, ahi, blo, bhi) # queue, matching_blocks))
      \<in> measure (\<lambda>(a, b, b2j, queue, matching_blocks). queue_weight queue)"
    using \<open>k \<noteq> 0\<close> by (auto simp: queue_weight_def)
next
  fix a b :: "'a list" and b2j :: "'a b2j" and alo ahi blo bhi queue
    and matching_blocks :: "match list"
  show "((a, b, b2j, queue, matching_blocks),
         (a, b, b2j, (alo, ahi, blo, bhi) # queue, matching_blocks))
      \<in> measure (\<lambda>(a, b, b2j, queue, matching_blocks). queue_weight queue)"
    by (simp add: queue_weight_def)
qed


declare blocks_loop.simps [simp del]

text \<open>
  After the loop the blocks are sorted (tuples compare lexicographically), adjacent blocks
  are merged (\<open>coalesce\<close>, started with \<^verbatim>\<open>i1 = j1 = k1 = 0\<close>), and the sentinel
  \<^verbatim>\<open>(la, lb, 0)\<close> is appended.
\<close>

fun coalesce :: "match list \<Rightarrow> match \<Rightarrow> match list \<Rightarrow> match list" where
  "coalesce [] (i1, j1, k1) non_adjacent =
     (if k1 \<noteq> 0 then non_adjacent @ [(i1, j1, k1)] else non_adjacent)"
| "coalesce ((i2, j2, k2) # rest) (i1, j1, k1) non_adjacent =
     (if i1 + k1 = i2 \<and> j1 + k1 = j2
      then coalesce rest (i1, j1, k1 + k2) non_adjacent
      else coalesce rest (i2, j2, k2)
             (if k1 \<noteq> 0 then non_adjacent @ [(i1, j1, k1)] else non_adjacent))"

definition get_matching_blocks :: "'a list \<Rightarrow> 'a list \<Rightarrow> match list" where
  "get_matching_blocks a b =
     (let la = length a; lb = length b;
          matching_blocks = blocks_loop a b (chain_b b) [(0, la, 0, lb)] [];
          non_adjacent = coalesce (sort matching_blocks) (0, 0, 0) []
      in non_adjacent @ [(la, lb, 0)])"

text \<open>
  \<^verbatim>\<open>ratio()\<close> returns the float \<^verbatim>\<open>2.0 * matches / length\<close>, or \<^verbatim>\<open>1.0\<close> when both
  sequences are empty. The model returns the exact quotient as a rational number. The
  source only compares scores with each other and with the literal \<^verbatim>\<open>0.82\<close>. A float
  division is correctly rounded and rounding is monotone, so equal quotients give equal
  floats, and the quotient \<open>82/100\<close> gives exactly the float that the literal denotes.
  Two different quotients with denominators \<open>T1\<close> and \<open>T2\<close> differ by at least
  \<open>1 / (T1 * T2)\<close>, and a quotient other than \<open>82/100\<close> differs from it by at least
  \<open>1 / (50 * T)\<close>, far more than the rounding error \<open>2^-53\<close> for names shorter than a
  million characters. So every comparison on rationals below has the outcome of the
  comparison on floats in the source.
\<close>

definition calculate_ratio :: "nat \<Rightarrow> nat \<Rightarrow> rat" where
  "calculate_ratio matches len =
     (if len \<noteq> 0 then 2 * of_nat matches / of_nat len else 1)"

definition ratio :: "'a list \<Rightarrow> 'a list \<Rightarrow> rat" where
  "ratio a b =
     (let matches = sum_list (map (\<lambda>(i, j, k). k) (get_matching_blocks a b))
      in calculate_ratio matches (length a + length b))"


subsection \<open>Substrings and joining\<close>

text \<open>
  \<open>contains s sub\<close> is Python's \<^verbatim>\<open>sub in s\<close> on strings, and \<open>join sep vs\<close> is
  \<^verbatim>\<open>sep.join(vs)\<close>.
\<close>

fun startswith :: "'a list \<Rightarrow> 'a list \<Rightarrow> bool" where
  "startswith s [] = True"
| "startswith [] (p # ps) = False"
| "startswith (c # s) (p # ps) = (c = p \<and> startswith s ps)"

fun contains :: "'a list \<Rightarrow> 'a list \<Rightarrow> bool" where
  "contains [] sub = (sub = [])"
| "contains (c # s) sub = (startswith (c # s) sub \<or> contains s sub)"

fun join :: "string \<Rightarrow> string list \<Rightarrow> string" where
  "join sep [] = []"
| "join sep [v] = v"
| "join sep (v # w # vs) = v @ sep @ join sep (w # vs)"

subsection \<open>Regular expressions\<close>

text \<open>
  The patterns of \<^verbatim>\<open>_infer_content\<close> use character classes, concatenation,
  alternation, \<^verbatim>\<open>?\<close>, \<^verbatim>\<open>+\<close> and counted repetition. \<open>rmatch r s\<close> lists what is left
  of \<open>s\<close> after each way of matching \<open>r\<close> at the start of \<open>s\<close>, and \<open>search r s\<close> is
  \<^verbatim>\<open>re.search\<close> seen as a truth value: some suffix of \<open>s\<close> starts with a match.
  A repetition goes on only after an iteration that consumed a character. On
  Latin-1 the class \<^verbatim>\<open>\d\<close> is \<^verbatim>\<open>0-9\<close> and \<^verbatim>\<open>\s\<close> is the set of code points given in
  \<open>is_space\<close>.
\<close>

datatype rexp =
    Eps
  | Cls "char \<Rightarrow> bool"
  | Cat rexp rexp
  | Alt rexp rexp
  | Opt rexp
  | Plus rexp

fun rmatch :: "rexp \<Rightarrow> string \<Rightarrow> string list" where
  "rmatch Eps s = [s]"
| "rmatch (Cls p) [] = []"
| "rmatch (Cls p) (c # s) = (if p c then [s] else [])"
| "rmatch (Cat r1 r2) s = concat (map (rmatch r2) (rmatch r1 s))"
| "rmatch (Alt r1 r2) s = rmatch r1 s @ rmatch r2 s"
| "rmatch (Opt r) s = rmatch r s @ [s]"
| "rmatch (Plus r) s =
     concat (map (\<lambda>t. t # (if length t < length s then rmatch (Plus r) t else []))
                 (rmatch r s))"


fun search :: "rexp \<Rightarrow> string \<Rightarrow> bool" where
  "search r [] = (rmatch r [] \<noteq> [])"
| "search r (c # s) = (rmatch r (c # s) \<noteq> [] \<or> search r s)"

fun rep :: "nat \<Rightarrow> rexp \<Rightarrow> rexp" where
  "rep 0 r = Eps"
| "rep (Suc n) r = Cat r (rep n r)"

definition lit :: "char \<Rightarrow> rexp" where
  "lit c = Cls (\<lambda>x. x = c)"

definition is_digit :: "char \<Rightarrow> bool" where
  "is_digit c = (48 \<le> ord c \<and> ord c \<le> 57)"

definition is_space :: "char \<Rightarrow> bool" where
  "is_space c = (ord c \<in> {9, 10, 11, 12, 13, 28, 29, 30, 31, 32, 133, 160})"

definition digit :: rexp where
  "digit = Cls is_digit"

definition sep :: rexp where
  "sep = Cls (\<lambda>c. c = CHR ''-'' \<or> c = CHR ''.'' \<or> is_space c)"

text \<open>
  The three patterns of the source:
  \<^verbatim>\<open>\+\d|\d{3}[-.\s]?\d{3}[-.\s]?\d{4}\<close>,
  \<^verbatim>\<open>\d{4}-\d{2}-\d{2}|\d{2}/\d{2}/\d{4}\<close> and
  \<^verbatim>\<open>\$|\d+k|\d+m\<close>.
\<close>

definition phone_re :: rexp where
  "phone_re =
     Alt (Cat (lit CHR ''+'') digit)
         (Cat (rep 3 digit) (Cat (Opt sep) (Cat (rep 3 digit) (Cat (Opt sep) (rep 4 digit)))))"

definition date_re :: rexp where
  "date_re =
     Alt (Cat (rep 4 digit) (Cat (lit CHR ''-'') (Cat (rep 2 digit)
            (Cat (lit CHR ''-'') (rep 2 digit)))))
         (Cat (rep 2 digit) (Cat (lit CHR ''/'') (Cat (rep 2 digit)
            (Cat (lit CHR ''/'') (rep 4 digit)))))"

definition money_re :: rexp where
  "money_re =
     Alt (lit CHR ''$'')
         (Alt (Cat (Plus digit) (lit CHR ''k'')) (Cat (Plus digit) (lit CHR ''m'')))"

subsection \<open>The taxonomy\<close>

text \<open>
  \<^verbatim>\<open>_standard_fields\<close> returns a dictionary with the keys \<^verbatim>\<open>required\<close> and
  \<^verbatim>\<open>optional\<close>; it is a value with these two selectors here. The function has no
  failing branch: every \<^verbatim>\<open>file_type\<close> other than \<^verbatim>\<open>"buyers"\<close> gets the visitors
  entry. \<open>all_fields_of\<close> names the list \<^verbatim>\<open>std["required"] + std["optional"]\<close> that
  both callers build.
\<close>

datatype error = IndexError | AttributeError | AiFailure

datatype taxonomy = Taxonomy (required: "string list") (optional: "string list")

definition buyers :: taxonomy where
  "buyers = Taxonomy
     [''email'', ''name'', ''order_date'', ''revenue'']
     [
       ''product'', ''quantity'', ''customer_id'', ''phone'', ''address'', ''city'', ''state'',
       ''country'', ''zip_code'', ''payment_method'', ''order_id'', ''status'', ''discount'',
       ''tax'', ''shipping_cost'', ''net_worth'', ''income'', ''age_range'', ''gender'',
       ''company_name'', ''company_revenue'', ''job_title'', ''department'',
       ''seniority_level'']"

definition visitors :: taxonomy where
  "visitors = Taxonomy
     [''email'', ''visit_date'']
     [
       ''source'', ''campaign'', ''device'', ''page_url'', ''session_id'', ''referrer'',
       ''utm_source'', ''utm_medium'', ''utm_campaign'', ''browser'', ''os'', ''ip_address'',
       ''location'', ''duration'', ''event_type'', ''pixel_id'', ''uuid'', ''user_agent'']"

definition standard_fields :: "string \<Rightarrow> taxonomy" where
  "standard_fields file_type = (if file_type = ''buyers'' then buyers else visitors)"

definition all_fields_of :: "string \<Rightarrow> string list" where
  "all_fields_of file_type =
     (let std = standard_fields file_type in required std @ optional std)"

subsection \<open>Content inference\<close>

text \<open>
  The sample is an optional \<^verbatim>\<open>pandas.DataFrame\<close> with distinct column labels: a map
  from a column label to its cells. A cell is \<open>None\<close> when pandas counts it as missing
  (it is removed by \<^verbatim>\<open>dropna()\<close>) and otherwise \<open>Some s\<close>, where \<open>s\<close> is the text
  \<^verbatim>\<open>str(v)\<close> of the value.
\<close>

type_synonym series = "string option list"
type_synonym dataframe = "string \<rightharpoonup> series"

definition dropna :: "series \<Rightarrow> string list" where
  "dropna series = List.map_filter id series"

definition infer_content :: "series \<Rightarrow> string list \<Rightarrow> string option" where
  "infer_content series fields =
     (let vals = take 5 (dropna series)
      in if vals = [] then None
         else
           (let text = lower (join '' '' vals)
            in if contains text ''@'' \<and> ''email'' \<in> set fields then Some ''email''
               else if search phone_re text \<and> ''phone'' \<in> set fields then Some ''phone''
               else if search date_re text
                 then Some (if ''order_date'' \<in> set fields then ''order_date'' else ''visit_date'')
               else if search money_re text \<and> ''revenue'' \<in> set fields then Some ''revenue''
               else if contains text ''http'' \<or> contains text ''www.''
                 then Some (if ''page_url'' \<in> set fields then ''page_url'' else ''referrer'')
               else None))"

subsection \<open>The matcher\<close>

text \<open>
  \<open>fuzzy_loop\<close> is the first loop of \<^verbatim>\<open>_best_match\<close>: it either returns a field from
  inside the loop (\<open>Return\<close>) or runs to its end and hands over the running best score and
  field (\<open>Fallthrough\<close>). \<open>boosts\<close> is the keyword dictionary in its insertion order, and
  \<open>keyword_loop\<close> the loop over its items. \<open>content_step\<close> is the second step, with the
  truth test \<^verbatim>\<open>if inferred:\<close> written out. \<^verbatim>\<open>fields[0]\<close> raises \<^verbatim>\<open>IndexError\<close> on an
  empty list.
\<close>

datatype fuzzy_outcome = Return string | Fallthrough rat string

fun fuzzy_loop :: "string \<Rightarrow> string list \<Rightarrow> rat \<Rightarrow> string \<Rightarrow> fuzzy_outcome" where
  "fuzzy_loop clean [] best_score best = Fallthrough best_score best"
| "fuzzy_loop clean (f # fs) best_score best =
     (let f_clean = clean_name f;
          score = ratio clean f_clean;
          (best_score', best') = (if score > best_score then (score, f) else (best_score, best))
      in if score > 82 / 100 then Return f else fuzzy_loop clean fs best_score' best')"

definition boosts :: "(string \<times> string list) list" where
  "boosts = [
     (''email'', [''email'', ''mail'', ''sha256'', ''hem'']),
     (''phone'', [''phone'', ''mobile'', ''cell'', ''number'', ''direct'', ''wireless'', ''landline'']),
     (''name'', [''name'', ''first'', ''last'', ''full'']),
     (''address'', [''address'', ''street'', ''addr'']),
     (''city'', [''city'', ''town'']),
     (''state'', [''state'', ''province'']),
     (''zip_code'', [''zip'', ''postal'', ''postcode'']),
     (''revenue'', [''revenue'', ''worth'', ''income'', ''amount'', ''price'']),
     (''company_name'', [''company'', ''business'', ''org'']),
     (''job_title'', [''job'', ''title'', ''role'', ''position'']),
     (''age_range'', [''age'', ''dob'']),
     (''gender'', [''gender'', ''sex'']),
     (''net_worth'', [''net'', ''worth'']),
     (''income'', [''income'', ''salary''])]"

fun keyword_loop :: "(string \<times> string list) list \<Rightarrow> string list \<Rightarrow> string \<Rightarrow> string option" where
  "keyword_loop [] fields clean = None"
| "keyword_loop ((field, kws) # rest) fields clean =
     (if field \<in> set fields \<and> list_ex (\<lambda>k. contains clean k) kws then Some field
      else keyword_loop rest fields clean)"

definition content_step :: "string \<Rightarrow> string list \<Rightarrow> dataframe option \<Rightarrow> string option" where
  "content_step col fields sample =
     (case sample of
        None \<Rightarrow> None
      | Some df \<Rightarrow>
          (case df col of
             None \<Rightarrow> None
           | Some series \<Rightarrow>
               (case infer_content series fields of
                  None \<Rightarrow> None
                | Some inferred \<Rightarrow> if inferred \<noteq> [] then Some inferred else None)))"

definition best_match :: "string \<Rightarrow> string list \<Rightarrow> dataframe option \<Rightarrow> error + string" where
  "best_match col fields sample =
     (let clean = clean_name col
      in case fields of
           [] \<Rightarrow> Inl IndexError
         | f0 # _ \<Rightarrow>
             (case fuzzy_loop clean fields 0 f0 of
                Return f \<Rightarrow> Inr f
              | Fallthrough best_score best \<Rightarrow>
                  (case content_step col fields sample of
                     Some inferred \<Rightarrow> Inr inferred
                   | None \<Rightarrow>
                       (case keyword_loop boosts fields clean of
                          Some field \<Rightarrow> Inr field
                        | None \<Rightarrow> Inr best))))"

subsection \<open>The orchestrator\<close>

text \<open>
  A Python dictionary remembers the order in which its keys were first stored, and storing
  under an existing key replaces the value in place. \<open>AList.update\<close> on an association
  list does exactly this.

  The lines of the \<^verbatim>\<open>try\<close> block that talk to the external service (creating the
  client, \<^verbatim>\<open>_build_prompt\<close>, \<^verbatim>\<open>generate_content\<close>, \<^verbatim>\<open>_extract_json\<close>,
  \<^verbatim>\<open>json.loads\<close>) are not under the control of this code. Their outcome is a parameter:
  \<open>AiRaised\<close> when any of them raised an exception, \<open>AiParsed v\<close> when \<^verbatim>\<open>json.loads\<close>
  returned the JSON value \<open>v\<close>. A JSON object is the list of its members in the order of
  the text; a later member with the same key wins, as in \<^verbatim>\<open>json.loads\<close>.
  \<^verbatim>\<open>ai_map.get(col)\<close> raises \<^verbatim>\<open>AttributeError\<close> unless \<^verbatim>\<open>ai_map\<close> is a dictionary, and
  gives \<^verbatim>\<open>None\<close> (the JSON null) for a missing key. \<open>field_in\<close> is the test
  \<^verbatim>\<open>field in all_fields\<close>: only a string can be equal to a member of a list of strings.
  The parameter \<open>GEMINI_API_KEY\<close> is the module variable of that name, the result of
  \<^verbatim>\<open>os.getenv\<close>; \<^verbatim>\<open>not GEMINI_API_KEY\<close> holds for \<^verbatim>\<open>None\<close> and for the empty string.
  Any exception inside the \<^verbatim>\<open>try\<close> block leads to \<^verbatim>\<open>_fallback_mapping\<close>.

  The prompt is built from \<^verbatim>\<open>columns\<close>, \<^verbatim>\<open>file_type\<close> and the sample, so the reply may
  depend on all three. The statements below hold for every reply; none of them compares
  two calls under one and the same reply.
\<close>

type_synonym py_dict = "(string \<times> string) list"

fun fallback_loop ::
  "string list \<Rightarrow> string list \<Rightarrow> dataframe option \<Rightarrow> py_dict \<Rightarrow> error + py_dict" where
  "fallback_loop [] all_fields sample d = Inr d"
| "fallback_loop (col # columns) all_fields sample d =
     (case best_match col all_fields sample of
        Inl e \<Rightarrow> Inl e
      | Inr v \<Rightarrow> fallback_loop columns all_fields sample (AList.update col v d))"

definition fallback_mapping ::
  "string list \<Rightarrow> string \<Rightarrow> dataframe option \<Rightarrow> error + py_dict" where
  "fallback_mapping columns file_type sample =
     (let std = standard_fields file_type;
          all_fields = required std @ optional std
      in fallback_loop columns all_fields sample [])"

datatype json =
    JNull
  | JBool bool
  | JNum rat
  | JStr string
  | JArr "json list"
  | JObj "(string \<times> json) list"

datatype ai_reply = AiRaised | AiParsed json

definition dict_get :: "json \<Rightarrow> string \<Rightarrow> error + json" where
  "dict_get ai_map col =
     (case ai_map of
        JObj kvs \<Rightarrow> Inr (case map_of (rev kvs) col of None \<Rightarrow> JNull | Some v \<Rightarrow> v)
      | _ \<Rightarrow> Inl AttributeError)"

definition field_in :: "json \<Rightarrow> string list \<Rightarrow> string option" where
  "field_in field all_fields =
     (case field of
        JStr s \<Rightarrow> if s \<in> set all_fields then Some s else None
      | _ \<Rightarrow> None)"

fun mapping_loop ::
  "json \<Rightarrow> string list \<Rightarrow> string list \<Rightarrow> dataframe option \<Rightarrow> py_dict \<Rightarrow> error + py_dict" where
  "mapping_loop ai_map [] all_fields sample final = Inr final"
| "mapping_loop ai_map (col # columns) all_fields sample final =
     (case dict_get ai_map col of
        Inl e \<Rightarrow> Inl e
      | Inr field \<Rightarrow>
          (case (case field_in field all_fields of
                   Some s \<Rightarrow> Inr s
                 | None \<Rightarrow> best_match col all_fields sample) of
             Inl e \<Rightarrow> Inl e
           | Inr v \<Rightarrow> mapping_loop ai_map columns all_fields sample (AList.update col v final)))"

definition try_block ::
  "ai_reply \<Rightarrow> string list \<Rightarrow> string \<Rightarrow> dataframe option \<Rightarrow> error + py_dict" where
  "try_block reply columns file_type sample_data =
     (let std = standard_fields file_type;
          all_fields = required std @ optional std
      in case reply of
           AiRaised \<Rightarrow> Inl AiFailure
         | AiParsed ai_map \<Rightarrow> mapping_loop ai_map columns all_fields sample_data [])"

definition suggest_column_mapping ::
  "string option \<Rightarrow> ai_reply \<Rightarrow> string list \<Rightarrow> string \<Rightarrow> dataframe option \<Rightarrow> error + py_dict" where
  "suggest_column_mapping GEMINI_API_KEY reply columns file_type sample_data =
     (if GEMINI_API_KEY = None \<or> GEMINI_API_KEY = Some []
      then fallback_mapping columns file_type sample_data
      else
        (case try_block reply columns file_type sample_data of
           Inr final \<Rightarrow> Inr final
         | Inl e \<Rightarrow> fallback_mapping columns file_type sample_data))"


subsection \<open>Predicates and inputs used in the statements\<close>

text \<open>
  \<open>field_ok fields v\<close> says where a value of the mapping can come from: \<open>v\<close> is a
  candidate field, or one of the two names that \<^verbatim>\<open>_infer_content\<close> returns without
  a membership test, in the case in which it returns them.
\<close>

definition field_ok :: "string list \<Rightarrow> string \<Rightarrow> bool" where
  "field_ok fields v =
     (v \<in> set fields
      \<or> (v = ''visit_date'' \<and> ''order_date'' \<notin> set fields)
      \<or> (v = ''referrer'' \<and> ''page_url'' \<notin> set fields))"

text \<open>
  A column has no usable sample data when no sample was passed, when the sample has no
  column of that name, or when every cell of the column is missing: in these cases
  \<^verbatim>\<open>_best_match\<close> skips \<^verbatim>\<open>_infer_content\<close> or gets \<^verbatim>\<open>None\<close> from it.
\<close>

definition no_usable_sample :: "string \<Rightarrow> dataframe option \<Rightarrow> bool" where
  "no_usable_sample col sample =
     (case sample of
        None \<Rightarrow> True
      | Some df \<Rightarrow> (case df col of None \<Rightarrow> True | Some series \<Rightarrow> dropna series = []))"

text \<open>
  The letters and digits that can survive \<open>clean_name\<close>: \<^verbatim>\<open>0-9\<close>, \<^verbatim>\<open>A-Z\<close>,
  \<^verbatim>\<open>a-z\<close>. Python's \<^verbatim>\<open>str.isalnum\<close> accepts these and more, so a name without
  alphanumeric characters has none of these.
\<close>

definition is_ascii_alnum :: "char \<Rightarrow> bool" where
  "is_ascii_alnum c =
     (let n = ord c in (48 \<le> n \<and> n \<le> 57) \<or> (65 \<le> n \<and> n \<le> 90) \<or> (97 \<le> n \<and> n \<le> 122))"

text \<open>
  A sample of an uploaded buyers file with one column, \<^verbatim>\<open>website\<close>, holding one URL.
\<close>

definition website_sample :: dataframe where
  "website_sample = [''website'' \<mapsto> [Some ''http://example.com'']]"

section \<open>Properties of the similarity ratio\<close>

text \<open>
  The match returned by \<open>find_longest_match\<close> also lies inside the range of \<open>b\<close>, so
  \<open>j + 1 - k\<close> is exact as well, and the ranges that \<open>get_matching_blocks\<close> puts on its
  work list are parts of the range it took off: every index read from \<open>a\<close> or \<open>b\<close> is
  below its length.
\<close>

lemma flm_inner_bounds_b:
  assumes "flm_inner js i blo bhi j2len newj2len (besti, bestj, bestsize) = (n', bi', bj', bs')"
    and "\<forall>j v. j2len j = Some v \<longrightarrow> v + blo \<le> Suc j"
    and "\<forall>j v. newj2len j = Some v \<longrightarrow> v + blo \<le> Suc j"
    and "blo \<le> bestj" and "bestj + bestsize \<le> max blo bhi"
  shows "(\<forall>j v. n' j = Some v \<longrightarrow> v + blo \<le> Suc j) \<and> blo \<le> bj' \<and> bj' + bs' \<le> max blo bhi"
  using assms
proof (induction js arbitrary: newj2len besti bestj bestsize)
  case Nil
  then show ?case by simp
next
  case (Cons j js)
  let ?k = "(if j = 0 then 0 else case j2len (j - 1) of None \<Rightarrow> 0 | Some v \<Rightarrow> v) + 1"
  show ?case
  proof (cases "j < blo")
    case True
    with Cons show ?thesis by simp
  next
    case lo: False
    show ?thesis
    proof (cases "j \<ge> bhi")
      case True
      with lo Cons.prems show ?thesis by simp
    next
      case hi: False
      have k: "?k + blo \<le> Suc j"
      proof (cases "j = 0")
        case True
        with lo show ?thesis by simp
      next
        case j0: False
        show ?thesis
        proof (cases "j2len (j - 1)")
          case None
          with lo j0 show ?thesis by simp
        next
          case (Some v)
          with Cons.prems(2) have "v + blo \<le> Suc (j - 1)" by blast
          with Some j0 show ?thesis by simp
        qed
      qed
      have new: "\<forall>j' v. (newj2len(j \<mapsto> ?k)) j' = Some v \<longrightarrow> v + blo \<le> Suc j'"
        using k Cons.prems(3) by auto
      show ?thesis
      proof (cases "?k > bestsize")
        case True
        have "flm_inner js i blo bhi j2len (newj2len(j \<mapsto> ?k)) (i + 1 - ?k, j + 1 - ?k, ?k)
                = (n', bi', bj', bs')"
          using Cons.prems(1) lo hi True by (simp add: Let_def)
        moreover have "blo \<le> j + 1 - ?k" using k by arith
        moreover have "j + 1 - ?k + ?k \<le> max blo bhi" using k hi by arith
        ultimately show ?thesis
          using Cons.IH Cons.prems(2) new by blast
      next
        case False
        have "flm_inner js i blo bhi j2len (newj2len(j \<mapsto> ?k)) (besti, bestj, bestsize)
                = (n', bi', bj', bs')"
          using Cons.prems(1) lo hi False by (simp add: Let_def)
        then show ?thesis
          using Cons.IH Cons.prems(2,4,5) new by blast
      qed
    qed
  qed
qed

lemma flm_outer_bounds_b:
  assumes "flm_outer a b2j is blo bhi j2len (besti, bestj, bestsize) = (bi', bj', bs')"
    and "\<forall>j v. j2len j = Some v \<longrightarrow> v + blo \<le> Suc j"
    and "blo \<le> bestj" and "bestj + bestsize \<le> max blo bhi"
  shows "blo \<le> bj' \<and> bj' + bs' \<le> max blo bhi"
  using assms
proof (induction "is" arbitrary: j2len besti bestj bestsize)
  case Nil
  then show ?case by simp
next
  case (Cons i "is")
  obtain n' ci cj cs where
    inner: "flm_inner (case b2j (a ! i) of None \<Rightarrow> [] | Some idxs \<Rightarrow> idxs) i blo bhi j2len
              Map.empty (besti, bestj, bestsize) = (n', ci, cj, cs)"
    by (metis prod_cases4)
  have step: "(\<forall>j v. n' j = Some v \<longrightarrow> v + blo \<le> Suc j) \<and> blo \<le> cj \<and> cj + cs \<le> max blo bhi"
    using flm_inner_bounds_b [OF inner Cons.prems(2) _ Cons.prems(3,4)] by simp
  have rest: "flm_outer a b2j is blo bhi n' (ci, cj, cs) = (bi', bj', bs')"
    using Cons.prems(1) inner by simp
  from Cons.IH [OF rest] step show ?case by blast
qed

lemma extend_left_bounds_b:
  "extend_left a b alo blo (besti, bestj, bestsize) = (bi', bj', bs')
    \<Longrightarrow> blo \<le> bestj \<Longrightarrow> blo \<le> bj' \<and> bj' + bs' = bestj + bestsize"
proof (induction a b alo blo "(besti, bestj, bestsize)" arbitrary: besti bestj bestsize
       rule: extend_left.induct)
  case (1 a b alo blo besti bestj bestsize)
  show ?case
  proof (cases "besti > alo \<and> bestj > blo \<and> a ! (besti - 1) = b ! (bestj - 1)")
    case True
    then have "extend_left a b alo blo (besti - 1, bestj - 1, bestsize + 1) = (bi', bj', bs')"
      using "1.prems"(1) by (simp add: extend_left.simps)
    from "1.hyps" [OF True this] True show ?thesis by auto
  next
    case False
    then show ?thesis using "1.prems" by (auto simp: extend_left.simps)
  qed
qed

lemma extend_right_bounds_b:
  "extend_right a b ahi bhi (besti, bestj, bestsize) = (bi', bj', bs')
    \<Longrightarrow> bj' = bestj \<and> bj' + bs' \<le> max (bestj + bestsize) bhi"
proof (induction a b ahi bhi "(besti, bestj, bestsize)" arbitrary: besti bestj bestsize
       rule: extend_right.induct)
  case (1 a b ahi bhi besti bestj bestsize)
  show ?case
  proof (cases "besti + bestsize < ahi \<and> bestj + bestsize < bhi
                 \<and> a ! (besti + bestsize) = b ! (bestj + bestsize)")
    case True
    then have "extend_right a b ahi bhi (besti, bestj, bestsize + 1) = (bi', bj', bs')"
      using "1.prems"(1) by (simp add: extend_right.simps)
    from "1.hyps" [OF True this] True show ?thesis by simp
  next
    case False
    then show ?thesis using "1.prems" by (auto simp: extend_right.simps)
  qed
qed

lemma find_longest_match_bounds_b:
  assumes "find_longest_match a b b2j alo ahi blo bhi = (i, j, k)"
  shows "blo \<le> j \<and> j + k \<le> max blo bhi"
proof -
  obtain oi oj ok where o: "flm_outer a b2j [alo..<ahi] blo bhi Map.empty (alo, blo, 0) = (oi, oj, ok)"
    by (metis prod_cases3)
  obtain li lj lk where l: "extend_left a b alo blo (oi, oj, ok) = (li, lj, lk)"
    by (metis prod_cases3)
  have r: "extend_right a b ahi bhi (li, lj, lk) = (i, j, k)"
    using assms o l by (simp add: find_longest_match_def)
  have 1: "blo \<le> oj \<and> oj + ok \<le> max blo bhi"
    using flm_outer_bounds_b [OF o] by simp
  have 2: "blo \<le> lj \<and> lj + lk = oj + ok"
    using extend_left_bounds_b [OF l] 1 by simp
  have 3: "j = lj \<and> j + k \<le> max (lj + lk) bhi"
    using extend_right_bounds_b [OF r] by simp
  from 1 2 3 show ?thesis by auto
qed

lemma find_longest_match_in_range:
  assumes "find_longest_match a b b2j alo ahi blo bhi = (i, j, k)"
    and "alo \<le> ahi" and "blo \<le> bhi"
  shows "alo \<le> i \<and> i + k \<le> ahi \<and> blo \<le> j \<and> j + k \<le> bhi"
  using find_longest_match_bounds [OF assms(1)] find_longest_match_bounds_b [OF assms(1)]
    assms(2,3)
  by (simp add: max_def)

section \<open>Properties of the matcher and of the two mapping loops\<close>

text \<open>
  Whatever \<^verbatim>\<open>_best_match\<close> returns comes from one of four places: the fuzzy loop
  (a member of \<open>fields\<close>), \<^verbatim>\<open>_infer_content\<close>, the keyword loop (a member of
  \<open>fields\<close>), or the running best (a member of \<open>fields\<close>). \<^verbatim>\<open>_infer_content\<close> tests
  membership for \<^verbatim>\<open>email\<close>, \<^verbatim>\<open>phone\<close>, \<^verbatim>\<open>revenue\<close>, \<^verbatim>\<open>order_date\<close> and
  \<^verbatim>\<open>page_url\<close>, but returns \<^verbatim>\<open>visit_date\<close> and \<^verbatim>\<open>referrer\<close> without a test.
\<close>

lemma fuzzy_loop_Return: "fuzzy_loop clean fs best_score best = Return f \<Longrightarrow> f \<in> set fs"
  by (induction fs arbitrary: best_score best) (auto simp: Let_def split: if_splits)

lemma fuzzy_loop_Fallthrough:
  "fuzzy_loop clean fs best_score best = Fallthrough s b \<Longrightarrow> b = best \<or> b \<in> set fs"
  by (induction fs arbitrary: best_score best) (auto simp: Let_def split: if_splits)

lemma keyword_loop_Some: "keyword_loop tbl fields clean = Some f \<Longrightarrow> f \<in> set fields"
  by (induction tbl) (auto split: if_splits)

lemma infer_content_Some:
  "infer_content series fields = Some f \<Longrightarrow> field_ok fields f"
  by (auto simp: infer_content_def field_ok_def Let_def split: if_splits)

lemma content_step_Some:
  "content_step col fields sample = Some f \<Longrightarrow> field_ok fields f"
  by (auto simp: content_step_def dest: infer_content_Some split: option.splits if_splits)

lemma best_match_Return:
  assumes "fields \<noteq> []"
    and "fuzzy_loop (clean_name col) fields 0 (hd fields) = Return f"
  shows "best_match col fields sample = Inr f"
  using assms by (cases fields) (simp_all add: best_match_def del: fuzzy_loop.simps)

lemma best_match_Fallthrough:
  assumes "fields \<noteq> []"
    and "fuzzy_loop (clean_name col) fields 0 (hd fields) = Fallthrough s b"
  shows "best_match col fields sample =
     (case content_step col fields sample of
        Some inferred \<Rightarrow> Inr inferred
      | None \<Rightarrow>
          (case keyword_loop boosts fields (clean_name col) of
             Some field \<Rightarrow> Inr field
           | None \<Rightarrow> Inr b))"
proof -
  obtain f0 rest where fs: "fields = f0 # rest"
    using assms(1) by (cases fields) auto
  from assms(2) have "fuzzy_loop (clean_name col) (f0 # rest) 0 f0 = Fallthrough s b"
    by (simp add: fs del: fuzzy_loop.simps)
  then show ?thesis
    unfolding best_match_def fs by (simp del: fuzzy_loop.simps)
qed

lemma best_match_total:
  assumes "fields \<noteq> []"
  shows "\<exists>f. best_match col fields sample = Inr f \<and> field_ok fields f"
proof -
  have hd: "hd fields \<in> set fields" using assms by simp
  show ?thesis
  proof (cases "fuzzy_loop (clean_name col) fields 0 (hd fields)")
    case (Return f)
    from fuzzy_loop_Return [OF Return] have "field_ok fields f"
      by (simp add: field_ok_def)
    with best_match_Return [OF assms Return] show ?thesis by blast
  next
    case (Fallthrough s b)
    from fuzzy_loop_Fallthrough [OF Fallthrough] hd have b: "field_ok fields b"
      by (auto simp: field_ok_def)
    note bm = best_match_Fallthrough [OF assms Fallthrough, of sample]
    show ?thesis
    proof (cases "content_step col fields sample")
      case (Some inferred)
      with bm content_step_Some [OF Some] show ?thesis by simp
    next
      case None
      show ?thesis
      proof (cases "keyword_loop boosts fields (clean_name col)")
        case (Some field)
        from keyword_loop_Some [OF Some] have "field_ok fields field"
          by (simp add: field_ok_def)
        with bm None Some show ?thesis by simp
      next
        case kw: None
        with bm None b show ?thesis by simp
      qed
    qed
  qed
qed

lemma set_update_cases:
  "(c, x) \<in> set (AList.update k v al) \<Longrightarrow> (c, x) = (k, v) \<or> (c, x) \<in> set al"
  by (induction al) (auto split: if_splits)

lemma fallback_loop_total:
  assumes "all_fields \<noteq> []"
  shows "\<exists>d'. fallback_loop columns all_fields sample d = Inr d'
           \<and> fst ` set d' = fst ` set d \<union> set columns
           \<and> (distinct (map fst d) \<longrightarrow> distinct (map fst d'))
           \<and> (\<forall>(c, v) \<in> set d'. (c, v) \<in> set d \<or> field_ok all_fields v)"
proof (induction columns arbitrary: d)
  case Nil
  show ?case by auto
next
  case (Cons col columns)
  obtain f where f: "best_match col all_fields sample = Inr f" "field_ok all_fields f"
    using best_match_total [OF assms, of col sample] by blast
  obtain d' where d': "fallback_loop columns all_fields sample (AList.update col f d) = Inr d'"
      "fst ` set d' = fst ` set (AList.update col f d) \<union> set columns"
      "distinct (map fst (AList.update col f d)) \<longrightarrow> distinct (map fst d')"
      "\<forall>(c, v) \<in> set d'. (c, v) \<in> set (AList.update col f d) \<or> field_ok all_fields v"
    using Cons.IH [of "AList.update col f d"] by blast
  have 1: "fallback_loop (col # columns) all_fields sample d = Inr d'"
    using f(1) d'(1) by simp
  have 2: "fst ` set d' = fst ` set d \<union> set (col # columns)"
    using d'(2) by (simp add: dom_update)
  have 3: "distinct (map fst d) \<longrightarrow> distinct (map fst d')"
    using d'(3) by (simp add: distinct_update)
  have 4: "\<forall>(c, v) \<in> set d'. (c, v) \<in> set d \<or> field_ok all_fields v"
    using d'(4) f(2) set_update_cases [of _ _ col f d] by fastforce
  from 1 2 3 4 show ?case by blast
qed

lemma mapping_loop_Inr:
  assumes "all_fields \<noteq> []"
    and "mapping_loop ai_map columns all_fields sample d = Inr d'"
  shows "fst ` set d' = fst ` set d \<union> set columns
           \<and> (distinct (map fst d) \<longrightarrow> distinct (map fst d'))
           \<and> (\<forall>(c, v) \<in> set d'. (c, v) \<in> set d \<or> field_ok all_fields v)"
  using assms(2)
proof (induction columns arbitrary: d)
  case Nil
  then show ?case by auto
next
  case (Cons col columns)
  from Cons.prems obtain field where g: "dict_get ai_map col = Inr field"
    by (auto split: sum.splits)
  define r where "r = (case field_in field all_fields of Some s \<Rightarrow> Inr s
                        | None \<Rightarrow> best_match col all_fields sample)"
  from Cons.prems g obtain v where v: "r = Inr v"
      and rest: "mapping_loop ai_map columns all_fields sample (AList.update col v d) = Inr d'"
    by (auto simp: r_def split: sum.splits)
  have ok: "field_ok all_fields v"
  proof (cases "field_in field all_fields")
    case None
    with v have "best_match col all_fields sample = Inr v" by (simp add: r_def)
    with best_match_total [OF assms(1), of col sample] show ?thesis
      by auto
  next
    case (Some s)
    with v have "v = s" by (simp add: r_def)
    with Some show ?thesis
      by (auto simp: field_in_def field_ok_def split: json.splits if_splits)
  qed
  from Cons.IH [OF rest]
  have ih: "fst ` set d' = fst ` set (AList.update col v d) \<union> set columns"
      "distinct (map fst (AList.update col v d)) \<longrightarrow> distinct (map fst d')"
      "\<forall>(c, x) \<in> set d'. (c, x) \<in> set (AList.update col v d) \<or> field_ok all_fields x"
    by blast+
  have 2: "fst ` set d' = fst ` set d \<union> set (col # columns)"
    using ih(1) by (simp add: dom_update)
  have 3: "distinct (map fst d) \<longrightarrow> distinct (map fst d')"
    using ih(2) by (simp add: distinct_update)
  have 4: "\<forall>(c, x) \<in> set d'. (c, x) \<in> set d \<or> field_ok all_fields x"
    using ih(3) ok set_update_cases [of _ _ col v d] by fastforce
  from 2 3 4 show ?case by blast
qed

lemma all_fields_of_nonempty: "all_fields_of file_type \<noteq> []"
  by (simp add: all_fields_of_def standard_fields_def buyers_def visitors_def)

lemma orchestrator_returns_mapping:
  "\<exists>m. suggest_column_mapping key reply columns file_type sample = Inr m
        \<and> fst ` set m = set columns
        \<and> distinct (map fst m)
        \<and> (\<forall>(c, v) \<in> set m. field_ok (all_fields_of file_type) v)"
proof -
  let ?fs = "all_fields_of file_type"
  have ne: "?fs \<noteq> []" by (rule all_fields_of_nonempty)
  obtain fb where fb: "fallback_mapping columns file_type sample = Inr fb"
      "fst ` set fb = set columns" "distinct (map fst fb)"
      "\<forall>(c, v) \<in> set fb. field_ok ?fs v"
    using fallback_loop_total [OF ne, of columns sample "[]"]
    by (auto simp: fallback_mapping_def all_fields_of_def Let_def)
  show ?thesis
  proof (cases "key = None \<or> key = Some []")
    case True
    with fb show ?thesis by (auto simp: suggest_column_mapping_def)
  next
    case nokey: False
    show ?thesis
    proof (cases "try_block reply columns file_type sample")
      case (Inl e)
      with nokey fb show ?thesis by (auto simp: suggest_column_mapping_def)
    next
      case (Inr final)
      then obtain ai_map where "mapping_loop ai_map columns ?fs sample [] = Inr final"
        by (auto simp: try_block_def all_fields_of_def Let_def split: ai_reply.splits)
      from mapping_loop_Inr [OF ne this]
      have "fst ` set final = set columns" "distinct (map fst final)"
        "\<forall>(c, v) \<in> set final. field_ok ?fs v" by auto
      with nokey Inr show ?thesis by (auto simp: suggest_column_mapping_def)
    qed
  qed
qed

lemma all_fields_of_no_empty: "[] \<notin> set (all_fields_of file_type)"
  by (simp add: all_fields_of_def standard_fields_def buyers_def visitors_def)

lemma field_ok_nonempty: "field_ok (all_fields_of file_type) v \<Longrightarrow> v \<noteq> []"
  using all_fields_of_no_empty [of file_type] by (auto simp: field_ok_def)

text \<open>
  Both names are visitors fields, and \<^verbatim>\<open>order_date\<close> is a buyers field. So a value of
  a visitors mapping is always a visitors field, and a value of a buyers mapping is a buyers
  field or \<^verbatim>\<open>referrer\<close>.
\<close>

lemma field_ok_not_buyers:
  "file_type \<noteq> ''buyers'' \<Longrightarrow> field_ok (all_fields_of file_type) v
    \<Longrightarrow> v \<in> set (all_fields_of file_type)"
  by (auto simp: field_ok_def all_fields_of_def standard_fields_def visitors_def)

lemma field_ok_buyers:
  "field_ok (all_fields_of ''buyers'') v
    \<Longrightarrow> v \<in> set (all_fields_of ''buyers'') \<or> v = ''referrer''"
  by (auto simp: field_ok_def all_fields_of_def standard_fields_def buyers_def)

lemma visitors_mapping_valid:
  assumes "file_type \<noteq> ''buyers''"
  shows "\<exists>m. suggest_column_mapping key reply columns file_type sample = Inr m
           \<and> (\<forall>v \<in> snd ` set m. v \<in> set (all_fields_of file_type))"
proof -
  obtain m where m: "suggest_column_mapping key reply columns file_type sample = Inr m"
      "\<forall>(c, v) \<in> set m. field_ok (all_fields_of file_type) v"
    using orchestrator_returns_mapping [of key reply columns file_type sample] by blast
  have "\<forall>v \<in> snd ` set m. v \<in> set (all_fields_of file_type)"
  proof
    fix v assume "v \<in> snd ` set m"
    then obtain c where "(c, v) \<in> set m" by force
    with m(2) have "field_ok (all_fields_of file_type) v" by blast
    with assms show "v \<in> set (all_fields_of file_type)" by (rule field_ok_not_buyers)
  qed
  with m(1) show ?thesis by blast
qed

lemma buyers_mapping_values:
  "\<exists>m. suggest_column_mapping key reply columns ''buyers'' sample = Inr m
        \<and> (\<forall>v \<in> snd ` set m. v \<in> set (all_fields_of ''buyers'') \<or> v = ''referrer'')"
proof -
  obtain m where m: "suggest_column_mapping key reply columns ''buyers'' sample = Inr m"
      "\<forall>(c, v) \<in> set m. field_ok (all_fields_of ''buyers'') v"
    using orchestrator_returns_mapping [of key reply columns "''buyers''" sample] by blast
  have "\<forall>v \<in> snd ` set m. v \<in> set (all_fields_of ''buyers'') \<or> v = ''referrer''"
  proof
    fix v assume "v \<in> snd ` set m"
    then obtain c where "(c, v) \<in> set m" by force
    with m(2) have "field_ok (all_fields_of ''buyers'') v" by blast
    then show "v \<in> set (all_fields_of ''buyers'') \<or> v = ''referrer''"
      by (rule field_ok_buyers)
  qed
  with m(1) show ?thesis by blast
qed

lemma suggest_column_mapping_empty:
  "suggest_column_mapping key reply [] file_type sample = Inr []"
proof -
  have fb: "fallback_mapping [] file_type sample = Inr []"
    by (simp add: fallback_mapping_def Let_def)
  show ?thesis
  proof (cases "try_block reply [] file_type sample")
    case (Inl e)
    with fb show ?thesis by (simp add: suggest_column_mapping_def)
  next
    case (Inr final)
    then have "final = []"
      by (cases reply) (simp_all add: try_block_def Let_def)
    with Inr fb show ?thesis by (simp add: suggest_column_mapping_def)
  qed
qed

subsection \<open>Unfolding the matcher\<close>

text \<open>
  \<^verbatim>\<open>_best_match\<close> on a list of fields that is not empty, by the outcome of its
  first loop; and facts about the steps that follow it.
\<close>

lemma hd_all_fields_of: "hd (all_fields_of file_type) = ''email''"
  by (simp add: all_fields_of_def standard_fields_def buyers_def visitors_def)

lemma all_fields_of_eq:
  "required (standard_fields file_type) @ optional (standard_fields file_type)
     = all_fields_of file_type"
  by (simp add: all_fields_of_def Let_def)


lemma fuzzy_loop_below_threshold:
  "fuzzy_loop clean fs best_score best = Fallthrough s b
    \<Longrightarrow> \<forall>f \<in> set fs. \<not> ratio clean (clean_name f) > 82 / 100"
  by (induction fs arbitrary: best_score best) (auto simp: Let_def split: if_splits)

lemma fuzzy_loop_Return_threshold:
  "fuzzy_loop clean fs best_score best = Return f
    \<Longrightarrow> f \<in> set fs \<and> 82 / 100 < ratio clean (clean_name f)"
  by (induction fs arbitrary: best_score best) (auto simp: Let_def split: if_splits)

lemma fuzzy_loop_short_circuit:
  assumes "\<forall>g \<in> set pre. \<not> 82 / 100 < ratio clean (clean_name g)"
    and "82 / 100 < ratio clean (clean_name f)"
  shows "fuzzy_loop clean (pre @ f # post) best_score best = Return f"
  using assms by (induction pre arbitrary: best_score best) (simp_all add: Let_def)

lemma best_match_short_circuit:
  assumes "\<forall>g \<in> set pre. \<not> 82 / 100 < ratio (clean_name col) (clean_name g)"
    and "82 / 100 < ratio (clean_name col) (clean_name f)"
  shows "best_match col (pre @ f # post) sample = Inr f"
proof -
  have "fuzzy_loop (clean_name col) (pre @ f # post) 0 (hd (pre @ f # post)) = Return f"
    using assms by (rule fuzzy_loop_short_circuit)
  moreover have "pre @ f # post \<noteq> []" by simp
  ultimately show ?thesis by (rule best_match_Return [rotated])
qed

lemma content_step_no_sample:
  "no_usable_sample col sample \<Longrightarrow> content_step col fields sample = None"
  by (auto simp: no_usable_sample_def content_step_def infer_content_def
      split: option.splits)






lemma not_az09_lower:
  assumes "\<not> is_ascii_alnum c"
  shows "\<not> is_az09 (lower_char c)"
proof -
  have "ord (chr (ord c + 32)) = (ord c + 32) mod 256"
    by (simp add: ord_def chr_def)
  moreover have "ord c < 256" by (simp add: ord_def)
  ultimately show ?thesis
    using assms by (auto simp: is_ascii_alnum_def is_az09_def lower_char_def Let_def)
qed

lemma clean_name_no_alnum:
  "\<forall>c \<in> set col. \<not> is_ascii_alnum c \<Longrightarrow> clean_name col = []"
  by (induction col) (simp_all add: clean_name_def lower_def not_az09_lower)

subsection \<open>The matcher on the column names of the claims\<close>

text \<open>
  The first loop and the keyword loop of \<^verbatim>\<open>_best_match\<close>, evaluated on the two
  taxonomies for the column names \<^verbatim>\<open>email\<close>, \<^verbatim>\<open>contact_info\<close>, \<^verbatim>\<open>cell_no\<close>,
  \<^verbatim>\<open>website\<close> and for a name that cleans to the empty string.
\<close>

lemma ratio_email: "ratio (clean_name ''email'') (clean_name ''email'') = 1"
  by code_simp

lemma fuzzy_email_buyers:
  "fuzzy_loop (clean_name ''email'') (all_fields_of ''buyers'') 0 ''email'' = Return ''email''"
  by code_simp

lemma fuzzy_email_visitors:
  "fuzzy_loop (clean_name ''email'') (all_fields_of ''visitors'') 0 ''email'' = Return ''email''"
  by code_simp





lemma ratio_email_name: "\<not> 82 / 100 < ratio (clean_name ''email'') (clean_name ''name'')"
  by code_simp

lemma fuzzy_cell_no_buyers:
  "fuzzy_loop (clean_name ''cell_no'') (all_fields_of ''buyers'') 0 ''email''
     = Fallthrough (4 / 11) ''email''"
  by code_simp

lemma fuzzy_cell_no_visitors:
  "fuzzy_loop (clean_name ''cell_no'') (all_fields_of ''visitors'') 0 ''email''
     = Fallthrough (4 / 11) ''email''"
  by code_simp

lemma keyword_cell_no_buyers:
  "keyword_loop boosts (all_fields_of ''buyers'') (clean_name ''cell_no'') = Some ''phone''"
  by code_simp

lemma keyword_cell_no_visitors:
  "keyword_loop boosts (all_fields_of ''visitors'') (clean_name ''cell_no'') = None"
  by code_simp

lemma contains_cell: "contains (clean_name ''cell_no'') ''cell''"
  by code_simp

lemma fuzzy_empty_buyers:
  "fuzzy_loop [] (all_fields_of ''buyers'') 0 ''email'' = Fallthrough 0 ''email''"
  by code_simp

lemma fuzzy_empty_visitors:
  "fuzzy_loop [] (all_fields_of ''visitors'') 0 ''email'' = Fallthrough 0 ''email''"
  by code_simp

lemma ratio_empty_buyers:
  "list_all (\<lambda>f. ratio [] (clean_name f) = 0) (all_fields_of ''buyers'')"
  by code_simp

lemma ratio_empty_visitors:
  "list_all (\<lambda>f. ratio [] (clean_name f) = 0) (all_fields_of ''visitors'')"
  by code_simp

lemma keyword_empty_buyers: "keyword_loop boosts (all_fields_of ''buyers'') [] = None"
  by code_simp

lemma keyword_empty_visitors: "keyword_loop boosts (all_fields_of ''visitors'') [] = None"
  by code_simp

lemma best_match_website_buyers:
  "best_match ''website'' (all_fields_of ''buyers'') (Some website_sample) = Inr ''referrer''"
  by code_simp

lemma referrer_not_buyers: "''referrer'' \<notin> set (all_fields_of ''buyers'')"
  by code_simp

lemma phone_not_visitors: "''phone'' \<notin> set (all_fields_of ''visitors'')"
  by code_simp

lemma not_a_real_field_not_buyers: "''not_a_real_field'' \<notin> set (all_fields_of ''buyers'')"
  by code_simp

section \<open>The claims\<close>

subsection \<open>C1: the mapping is total\<close>

text \<open>
  Claim C1. For every list of columns and every valid category (\<^verbatim>\<open>buyers\<close> or
  \<^verbatim>\<open>visitors\<close>), whatever the API key, the reply of the external service and the sample
  are, \<open>suggest_column_mapping\<close> returns a mapping and raises nothing; the keys of the
  mapping are exactly the input columns, each once; every value is a string that is not
  empty; and for the empty list of columns the mapping is empty.
\<close>

theorem suggest_column_mapping_totality:
  assumes "file_type = ''buyers'' \<or> file_type = ''visitors''"
  shows "(\<exists>m. suggest_column_mapping key reply columns file_type sample = Inr m
            \<and> fst ` set m = set columns
            \<and> distinct (map fst m)
            \<and> (\<forall>v \<in> snd ` set m. v \<noteq> []))
         \<and> suggest_column_mapping key reply [] file_type sample = Inr []"
proof -
  obtain m where m: "suggest_column_mapping key reply columns file_type sample = Inr m"
      "fst ` set m = set columns" "distinct (map fst m)"
      "\<forall>(c, v) \<in> set m. field_ok (all_fields_of file_type) v"
    using orchestrator_returns_mapping [of key reply columns file_type sample] by blast
  have "\<forall>v \<in> snd ` set m. v \<noteq> []"
  proof
    fix v assume "v \<in> snd ` set m"
    then obtain c where "(c, v) \<in> set m" by force
    with m(4) have "field_ok (all_fields_of file_type) v" by blast
    then show "v \<noteq> []" by (rule field_ok_nonempty)
  qed
  with m(1,2,3) suggest_column_mapping_empty [of key reply file_type sample]
  show ?thesis by blast
qed

theorem suggest_column_mapping_totality_witness:
  "(''buyers'' = ''buyers'' \<or> ''buyers'' = ''visitors'')
     \<and> (\<exists>m. suggest_column_mapping (Some ''k'') (AiParsed (JObj [(''A'', JNull)]))
                [''A'', ''email''] ''buyers'' None = Inr m
            \<and> fst ` set m = set [''A'', ''email'']
            \<and> [] \<notin> snd ` set m)"
proof -
  have h: "''buyers'' = ''buyers'' \<or> ''buyers'' = ''visitors''" by simp
  from suggest_column_mapping_totality [OF h, of "Some ''k''"
      "AiParsed (JObj [(''A'', JNull)])" "[''A'', ''email'']" None]
  obtain m where "suggest_column_mapping (Some ''k'') (AiParsed (JObj [(''A'', JNull)]))
                [''A'', ''email''] ''buyers'' None = Inr m"
      "fst ` set m = set [''A'', ''email'']" "\<forall>v \<in> snd ` set m. v \<noteq> []"
    by blast
  then have "suggest_column_mapping (Some ''k'') (AiParsed (JObj [(''A'', JNull)]))
                [''A'', ''email''] ''buyers'' None = Inr m
            \<and> fst ` set m = set [''A'', ''email'']
            \<and> [] \<notin> snd ` set m" by blast
  then show ?thesis using h by blast
qed

subsection \<open>C2: the values are fields of the category\<close>

text \<open>
  Claim C2 says that every value of the mapping is a field of the declared category.
  The docstring of \<^verbatim>\<open>suggest_column_mapping\<close> says the same (only valid standard
  fields). It fails for a buyers file with a column of URLs: the name \<^verbatim>\<open>website\<close>
  is not close enough to any buyers field, so \<^verbatim>\<open>_infer_content\<close> decides, and its URL
  rule returns \<^verbatim>\<open>referrer\<close> when \<^verbatim>\<open>page_url\<close> is not a candidate, without testing
  that \<^verbatim>\<open>referrer\<close> is one. The buyers taxonomy has neither field.
\<close>

theorem buyers_url_column_maps_outside_taxonomy:
  "suggest_column_mapping None AiRaised [''website''] ''buyers'' (Some website_sample)
     = Inr [(''website'', ''referrer'')]
   \<and> ''referrer'' \<notin> set (all_fields_of ''buyers'')"
proof -
  have "suggest_column_mapping None AiRaised [''website''] ''buyers'' (Some website_sample)
      = Inr [(''website'', ''referrer'')]"
    unfolding suggest_column_mapping_def fallback_mapping_def Let_def all_fields_of_eq
    by (simp add: best_match_website_buyers)
  with referrer_not_buyers show ?thesis by blast
qed

subsection \<open>C3: the contract of the matcher\<close>

text \<open>
  Claim C3 says that \<^verbatim>\<open>_best_match\<close> returns a member of the candidate fields. On the
  column \<^verbatim>\<open>website\<close> of the sample above, with the buyers fields as candidates, it
  returns \<^verbatim>\<open>referrer\<close>, which is not a candidate.
\<close>

theorem best_match_returns_non_candidate:
  "all_fields_of ''buyers'' \<noteq> []
     \<and> best_match ''website'' (all_fields_of ''buyers'') (Some website_sample) = Inr ''referrer''
     \<and> ''referrer'' \<notin> set (all_fields_of ''buyers'')"
  using all_fields_of_nonempty [of "''buyers''"] best_match_website_buyers referrer_not_buyers
  by blast

subsection \<open>C4: an unknown category\<close>

text \<open>
  Claim C4 says that the taxonomy lookup fails on a category other than \<^verbatim>\<open>buyers\<close> and
  \<^verbatim>\<open>visitors\<close>. \<open>standard_fields\<close> has no failing branch: on the category
  \<^verbatim>\<open>customers\<close> it returns the visitors taxonomy, and \<^verbatim>\<open>_fallback_mapping\<close>, which
  calls it, goes on to compute a mapping.
\<close>

theorem standard_fields_unknown_counterexample:
  "standard_fields ''customers'' = visitors
     \<and> fallback_mapping [''email''] ''customers'' None = Inr [(''email'', ''email'')]"
  by code_simp

text \<open>
  Claim C4 as amended. Called with a category that is not one of the two known
  categories \<^verbatim>\<open>buyers\<close> and \<^verbatim>\<open>visitors\<close>, the taxonomy lookup does not fail: it returns
  the visitors taxonomy.
\<close>

theorem standard_fields_never_fails:
  assumes "file_type \<noteq> ''buyers''" and "file_type \<noteq> ''visitors''"
  shows "standard_fields file_type = visitors"
  using assms(1) by (simp add: standard_fields_def)

theorem standard_fields_never_fails_witness:
  "''customers'' \<noteq> ''buyers'' \<and> ''customers'' \<noteq> ''visitors''
     \<and> standard_fields ''customers'' = visitors"
proof -
  have h1: "''customers'' \<noteq> ''buyers''" by simp
  have h2: "''customers'' \<noteq> ''visitors''" by simp
  from standard_fields_never_fails [OF h1 h2] h1 h2 show ?thesis by blast
qed

subsection \<open>C5: a suggestion that is rejected\<close>

text \<open>
  Claim C5 says that a column whose suggestion is rejected is resolved by
  \<^verbatim>\<open>_best_match\<close>, so that the output has no name outside the taxonomy. With the
  reply \<^verbatim>\<open>{"website": "not_a_real_field"}\<close> for the buyers sample above, the
  suggestion is rejected and \<^verbatim>\<open>_best_match\<close> is called, as the claim says, but what it
  returns is \<^verbatim>\<open>referrer\<close>, a name outside the buyers taxonomy.
\<close>

theorem rejected_suggestion_resolves_outside_taxonomy:
  "suggest_column_mapping (Some ''key'')
       (AiParsed (JObj [(''website'', JStr ''not_a_real_field'')]))
       [''website''] ''buyers'' (Some website_sample)
     = Inr [(''website'', ''referrer'')]
   \<and> ''referrer'' \<notin> set (all_fields_of ''buyers'')"
proof -
  have "suggest_column_mapping (Some ''key'')
       (AiParsed (JObj [(''website'', JStr ''not_a_real_field'')]))
       [''website''] ''buyers'' (Some website_sample)
     = Inr [(''website'', ''referrer'')]"
    unfolding suggest_column_mapping_def try_block_def Let_def all_fields_of_eq
    by (simp add: dict_get_def field_in_def not_a_real_field_not_buyers
        best_match_website_buyers)
  with referrer_not_buyers show ?thesis by blast
qed

subsection \<open>C6: the size of the mapping\<close>

text \<open>
  Claim C6 says that the mapping has as many entries as there are input columns. The
  mapping is a dictionary keyed by the column name, so a name that occurs twice in the
  input gets one entry: for the two columns \<^verbatim>\<open>email\<close>, \<^verbatim>\<open>email\<close> the mapping has
  one entry.
\<close>

theorem mapping_size_counterexample:
  "suggest_column_mapping None AiRaised [''email'', ''email''] ''buyers'' None
     = Inr [(''email'', ''email'')]
   \<and> length [(''email'', ''email'')] \<noteq> length [''email'', ''email'']"
  by code_simp

text \<open>
  Claim C6 as amended. For every list of input columns and valid category, the mapping
  returned by \<open>suggest_column_mapping\<close> has one entry for each distinct column name; when
  no name is repeated in the input, its size is the number of input columns.
\<close>

theorem mapping_size_distinct_columns:
  assumes "file_type = ''buyers'' \<or> file_type = ''visitors''"
  shows "\<exists>m. suggest_column_mapping key reply columns file_type sample = Inr m
           \<and> length m = card (set columns)
           \<and> (distinct columns \<longrightarrow> length m = length columns)"
proof -
  obtain m where m: "suggest_column_mapping key reply columns file_type sample = Inr m"
      "fst ` set m = set columns" "distinct (map fst m)"
    using orchestrator_returns_mapping [of key reply columns file_type sample] by blast
  have "length m = length (map fst m)" by simp
  also have "\<dots> = card (set (map fst m))" using m(3) by (simp only: distinct_card)
  also have "\<dots> = card (set columns)" using m(2) by simp
  finally have len: "length m = card (set columns)" .
  then have "distinct columns \<longrightarrow> length m = length columns"
    by (simp add: distinct_card)
  with m(1) len show ?thesis by blast
qed

theorem mapping_size_distinct_columns_witness:
  "(''visitors'' = ''buyers'' \<or> ''visitors'' = ''visitors'')
     \<and> distinct [''email'', ''uuid'']
     \<and> (\<exists>m. suggest_column_mapping None AiRaised [''email'', ''uuid''] ''visitors'' None = Inr m
            \<and> length m = 2)"
  using mapping_size_distinct_columns [of "''visitors''" None AiRaised "[''email'', ''uuid'']" None]
  by auto

subsection \<open>C7: content sniffing on the column contact_info\<close>



subsection \<open>C8: the keyword pass on the column cell_no\<close>

text \<open>
  Claim C8 says that the column \<^verbatim>\<open>cell_no\<close> without usable sample data is mapped to
  \<^verbatim>\<open>phone\<close> for the taxonomy of either category. The visitors taxonomy has no field
  \<^verbatim>\<open>phone\<close>; there the keyword pass finds nothing and the result is the field with the
  best fuzzy score, \<^verbatim>\<open>email\<close>.
\<close>

theorem cell_no_visitors_counterexample:
  "best_match ''cell_no'' (all_fields_of ''visitors'') None = Inr ''email''
     \<and> ''phone'' \<notin> set (all_fields_of ''visitors'')"
proof -
  have loop: "fuzzy_loop (clean_name ''cell_no'') (all_fields_of ''visitors'') 0
      (hd (all_fields_of ''visitors'')) = Fallthrough (4 / 11) ''email''"
    using fuzzy_cell_no_visitors by (simp only: hd_all_fields_of)
  have "best_match ''cell_no'' (all_fields_of ''visitors'') None = Inr ''email''"
    using best_match_Fallthrough [OF all_fields_of_nonempty loop, of None]
    by (simp add: content_step_def keyword_cell_no_visitors)
  with phone_not_visitors show ?thesis by blast
qed

text \<open>
  Claim C8 as amended. For the column \<^verbatim>\<open>cell_no\<close> without usable sample data and the
  buyers fields as candidates, no fuzzy score is above 0.82, content sniffing gives
  nothing, \<^verbatim>\<open>cell\<close> is a substring of the cleaned name, the keyword pass answers
  \<^verbatim>\<open>phone\<close>, and \<^verbatim>\<open>_best_match\<close> returns \<^verbatim>\<open>phone\<close>. With the visitors fields as
  candidates \<^verbatim>\<open>_best_match\<close> returns \<^verbatim>\<open>email\<close>.
\<close>

theorem cell_no_keyword_fallback:
  assumes "no_usable_sample ''cell_no'' sample"
  shows "(\<forall>f \<in> set (all_fields_of ''buyers'').
            \<not> ratio (clean_name ''cell_no'') (clean_name f) > 82 / 100)
     \<and> content_step ''cell_no'' (all_fields_of ''buyers'') sample = None
     \<and> contains (clean_name ''cell_no'') ''cell''
     \<and> keyword_loop boosts (all_fields_of ''buyers'') (clean_name ''cell_no'') = Some ''phone''
     \<and> best_match ''cell_no'' (all_fields_of ''buyers'') sample = Inr ''phone''
     \<and> best_match ''cell_no'' (all_fields_of ''visitors'') sample = Inr ''email''"
proof -
  have loop_b: "fuzzy_loop (clean_name ''cell_no'') (all_fields_of ''buyers'') 0
      (hd (all_fields_of ''buyers'')) = Fallthrough (4 / 11) ''email''"
    using fuzzy_cell_no_buyers by (simp only: hd_all_fields_of)
  have loop_v: "fuzzy_loop (clean_name ''cell_no'') (all_fields_of ''visitors'') 0
      (hd (all_fields_of ''visitors'')) = Fallthrough (4 / 11) ''email''"
    using fuzzy_cell_no_visitors by (simp only: hd_all_fields_of)
  have step: "content_step ''cell_no'' fields sample = None" for fields
    using assms by (rule content_step_no_sample)
  have b: "best_match ''cell_no'' (all_fields_of ''buyers'') sample = Inr ''phone''"
    using best_match_Fallthrough [OF all_fields_of_nonempty loop_b, of sample]
    by (simp add: step keyword_cell_no_buyers)
  have v: "best_match ''cell_no'' (all_fields_of ''visitors'') sample = Inr ''email''"
    using best_match_Fallthrough [OF all_fields_of_nonempty loop_v, of sample]
    by (simp add: step keyword_cell_no_visitors)
  from fuzzy_loop_below_threshold [OF loop_b] step contains_cell keyword_cell_no_buyers b v
  show ?thesis by blast
qed

theorem cell_no_keyword_fallback_witness:
  "no_usable_sample ''cell_no'' (Some [''cell_no'' \<mapsto> [None, None]])
     \<and> best_match ''cell_no'' (all_fields_of ''buyers'') (Some [''cell_no'' \<mapsto> [None, None]])
         = Inr ''phone''"
proof -
  have h: "no_usable_sample ''cell_no'' (Some [''cell_no'' \<mapsto> [None, None]])"
    by (simp add: no_usable_sample_def dropna_def)
  from cell_no_keyword_fallback [OF h] h show ?thesis by blast
qed

subsection \<open>C9: the threshold on the column email\<close>

text \<open>
  Claim C9. For the column \<^verbatim>\<open>email\<close> and the fields of either category, whatever the
  sample is:
  \<^item> the similarity of the cleaned name with the cleaned field \<^verbatim>\<open>email\<close> is 1, which is
    above 0.82;
  \<^item> \<^verbatim>\<open>email\<close> is the first field of the taxonomy, the first loop of \<^verbatim>\<open>_best_match\<close>
    returns \<^verbatim>\<open>email\<close> from inside the loop, and so \<^verbatim>\<open>_best_match\<close> returns \<^verbatim>\<open>email\<close>;
  \<^item> the first loop returns from inside only a candidate whose score is above 0.82,
    whatever the candidates and the running best are;
  \<^item> for any list of candidates that includes \<^verbatim>\<open>email\<close>, if no candidate before
    \<^verbatim>\<open>email\<close> has a score above 0.82, then the first loop returns \<^verbatim>\<open>email\<close> from
    inside, whatever the running best is, and \<^verbatim>\<open>_best_match\<close> returns \<^verbatim>\<open>email\<close> for
    every sample.
\<close>

theorem email_threshold_short_circuit:
  assumes "file_type = ''buyers'' \<or> file_type = ''visitors''"
  shows "ratio (clean_name ''email'') (clean_name ''email'') = 1
     \<and> 82 / 100 < ratio (clean_name ''email'') (clean_name ''email'')
     \<and> hd (all_fields_of file_type) = ''email''
     \<and> fuzzy_loop (clean_name ''email'') (all_fields_of file_type) 0
          (hd (all_fields_of file_type)) = Return ''email''
     \<and> best_match ''email'' (all_fields_of file_type) sample = Inr ''email''
     \<and> (\<forall>fs best_score best f.
            fuzzy_loop (clean_name ''email'') fs best_score best = Return f
            \<longrightarrow> f \<in> set fs \<and> 82 / 100 < ratio (clean_name ''email'') (clean_name f))
     \<and> (\<forall>pre post best_score best.
            (\<forall>g \<in> set pre. \<not> 82 / 100 < ratio (clean_name ''email'') (clean_name g))
            \<longrightarrow> fuzzy_loop (clean_name ''email'') (pre @ ''email'' # post) best_score best
                = Return ''email'')
     \<and> (\<forall>pre post s.
            (\<forall>g \<in> set pre. \<not> 82 / 100 < ratio (clean_name ''email'') (clean_name g))
            \<longrightarrow> best_match ''email'' (pre @ ''email'' # post) s = Inr ''email'')"
proof -
  have one: "ratio (clean_name ''email'') (clean_name ''email'') = 1"
    by (rule ratio_email)
  then have above: "82 / 100 < ratio (clean_name ''email'') (clean_name ''email'')"
    by simp
  have loop: "fuzzy_loop (clean_name ''email'') (all_fields_of file_type) 0
      (hd (all_fields_of file_type)) = Return ''email''"
    using assms fuzzy_email_buyers fuzzy_email_visitors
    by (auto simp only: hd_all_fields_of)
  have bm: "best_match ''email'' (all_fields_of file_type) sample = Inr ''email''"
    using all_fields_of_nonempty loop by (rule best_match_Return)
  have only: "\<forall>fs best_score best f.
      fuzzy_loop (clean_name ''email'') fs best_score best = Return f
      \<longrightarrow> f \<in> set fs \<and> 82 / 100 < ratio (clean_name ''email'') (clean_name f)"
    using fuzzy_loop_Return_threshold by blast
  have sc: "\<forall>pre post best_score best.
      (\<forall>g \<in> set pre. \<not> 82 / 100 < ratio (clean_name ''email'') (clean_name g))
      \<longrightarrow> fuzzy_loop (clean_name ''email'') (pre @ ''email'' # post) best_score best
          = Return ''email''"
    using fuzzy_loop_short_circuit [OF _ above] by blast
  have gen: "\<forall>pre post s.
      (\<forall>g \<in> set pre. \<not> 82 / 100 < ratio (clean_name ''email'') (clean_name g))
      \<longrightarrow> best_match ''email'' (pre @ ''email'' # post) s = Inr ''email''"
    using best_match_short_circuit [OF _ above] by blast
  from one above hd_all_fields_of [of file_type] loop bm only sc gen
  show ?thesis by blast
qed

theorem email_threshold_short_circuit_witness:
  "(''visitors'' = ''buyers'' \<or> ''visitors'' = ''visitors'')
     \<and> best_match ''email'' (all_fields_of ''visitors'') None = Inr ''email''
     \<and> best_match ''email'' [''name'', ''email'', ''phone''] None = Inr ''email''"
proof -
  have h: "''visitors'' = ''buyers'' \<or> ''visitors'' = ''visitors''" by simp
  note t = email_threshold_short_circuit [OF h, of None]
  from t have a: "best_match ''email'' (all_fields_of ''visitors'') None = Inr ''email''"
    by blast
  from t have "\<forall>pre post s.
      (\<forall>g \<in> set pre. \<not> 82 / 100 < ratio (clean_name ''email'') (clean_name g))
      \<longrightarrow> best_match ''email'' (pre @ ''email'' # post) s = Inr ''email''"
    by blast
  then have "(\<forall>g \<in> set [''name'']. \<not> 82 / 100 < ratio (clean_name ''email'') (clean_name g))
      \<longrightarrow> best_match ''email'' ([''name''] @ ''email'' # [''phone'']) None = Inr ''email''"
    by blast
  with ratio_email_name
  have b: "best_match ''email'' [''name'', ''email'', ''phone''] None = Inr ''email''"
    by simp
  from a b h show ?thesis by blast
qed

subsection \<open>C10: a column name without letters and digits\<close>

text \<open>
  Claim C10. For either category, a column whose name has no letter and no digit and
  that has no usable sample data: the name cleans to the empty string, every fuzzy score
  is 0, the keyword pass finds nothing, the first candidate is \<^verbatim>\<open>email\<close>, and
  \<^verbatim>\<open>_best_match\<close> returns \<^verbatim>\<open>email\<close>.
\<close>

theorem no_alnum_column_defaults_to_email:
  assumes "file_type = ''buyers'' \<or> file_type = ''visitors''"
    and "\<forall>c \<in> set col. \<not> is_ascii_alnum c"
    and "no_usable_sample col sample"
  shows "clean_name col = []
     \<and> (\<forall>f \<in> set (all_fields_of file_type). ratio (clean_name col) (clean_name f) = 0)
     \<and> keyword_loop boosts (all_fields_of file_type) (clean_name col) = None
     \<and> hd (all_fields_of file_type) = ''email''
     \<and> best_match col (all_fields_of file_type) sample = Inr ''email''"
proof -
  let ?fs = "all_fields_of file_type"
  have clean: "clean_name col = []"
    using assms(2) by (rule clean_name_no_alnum)
  have loop: "fuzzy_loop (clean_name col) ?fs 0 (hd ?fs) = Fallthrough 0 ''email''"
    using assms(1) fuzzy_empty_buyers fuzzy_empty_visitors
    by (auto simp only: hd_all_fields_of clean)
  have scores: "\<forall>f \<in> set ?fs. ratio (clean_name col) (clean_name f) = 0"
    using assms(1) ratio_empty_buyers ratio_empty_visitors
    by (auto simp only: clean list_all_iff)
  have kw: "keyword_loop boosts ?fs (clean_name col) = None"
    using assms(1) keyword_empty_buyers keyword_empty_visitors
    by (auto simp only: clean)
  have step: "content_step col ?fs sample = None"
    using assms(3) by (rule content_step_no_sample)
  have "best_match col ?fs sample = Inr ''email''"
    using best_match_Fallthrough [OF all_fields_of_nonempty loop, of sample]
    by (simp add: step kw)
  with clean scores kw hd_all_fields_of [of file_type] show ?thesis by blast
qed

theorem no_alnum_column_defaults_to_email_witness:
  "(''visitors'' = ''buyers'' \<or> ''visitors'' = ''visitors'')
     \<and> list_all (\<lambda>c. \<not> is_ascii_alnum c) ''# _-$''
     \<and> no_usable_sample ''# _-$'' None
     \<and> best_match ''# _-$'' (all_fields_of ''visitors'') None = Inr ''email''"
proof -
  have h1: "''visitors'' = ''buyers'' \<or> ''visitors'' = ''visitors''" by simp
  have l: "list_all (\<lambda>c. \<not> is_ascii_alnum c) ''# _-$''" by code_simp
  then have h2: "\<forall>c \<in> set ''# _-$''. \<not> is_ascii_alnum c" by (simp only: list_all_iff)
  have h3: "no_usable_sample ''# _-$'' None" by (simp add: no_usable_sample_def)
  from no_alnum_column_defaults_to_email [OF h1 h2 h3] h1 l h3 show ?thesis by blast
qed

end
